theory Spec2Isabelle
  imports
    Main
    "HOL-Library.Char_ord"
    "HOL-Library.List_Lexorder"
    "HOL-Library.Multiset"
    "HOL-Library.AList"
begin

unbundle bit_operations_syntax

section \<open>SHA-1, as \<^verbatim>\<open>crypto/sha1\<close> computes it\<close>

text \<open>
  The plugin derives its storage keys with \<^verbatim>\<open>sha1.Sum\<close> of the Go standard library.
  The digest is modelled after FIPS 180-4 and the library's block function. A byte and a
  32-bit word are an \<open>int\<close> kept in range with \<open>take_bit\<close>; a Go \<^verbatim>\<open>string\<close> is a
  \<open>string\<close> here, one \<open>char\<close> per byte.
\<close>

definition add32 :: "int \<Rightarrow> int \<Rightarrow> int" where
  "add32 x y = take_bit 32 (x + y)"

definition rotl32 :: "nat \<Rightarrow> int \<Rightarrow> int" where
  "rotl32 n x = take_bit 32 (push_bit n x) OR drop_bit (32 - n) x"

definition not32 :: "int \<Rightarrow> int" where
  "not32 x = take_bit 32 (NOT x)"

fun be32 :: "int list \<Rightarrow> int list" where
  "be32 (a # b # c # d # rest) =
     (push_bit 24 a OR push_bit 16 b OR push_bit 8 c OR d) # be32 rest"
| "be32 _ = []"

definition u64_bytes :: "int \<Rightarrow> int list" where
  "u64_bytes n = map (\<lambda>i. take_bit 8 (drop_bit (8 * (7 - i)) n)) [0..<8]"

definition sha1_pad :: "int list \<Rightarrow> int list" where
  "sha1_pad m =
     m @ [0x80] @ replicate ((119 - length m mod 64) mod 64) 0 @ u64_bytes (8 * int (length m))"

text \<open>The message schedule, newest word first: sixteen words grow to eighty.\<close>

fun schedule :: "nat \<Rightarrow> int list \<Rightarrow> int list" where
  "schedule 0 rev_ws = rev_ws"
| "schedule (Suc n) rev_ws =
     schedule n (rotl32 1 (rev_ws ! 2 XOR rev_ws ! 7 XOR rev_ws ! 13 XOR rev_ws ! 15) # rev_ws)"

type_synonym sha_state = "int \<times> int \<times> int \<times> int \<times> int"

definition sha1_f :: "nat \<Rightarrow> int \<Rightarrow> int \<Rightarrow> int \<Rightarrow> int" where
  "sha1_f t b c d =
     (if t < 20 then (b AND c) OR (not32 b AND d)
      else if t < 40 then b XOR c XOR d
      else if t < 60 then ((b OR c) AND d) OR (b AND c)
      else b XOR c XOR d)"

definition sha1_k :: "nat \<Rightarrow> int" where
  "sha1_k t =
     (if t < 20 then 0x5A827999 else if t < 40 then 0x6ED9EBA1
      else if t < 60 then 0x8F1BBCDC else 0xCA62C1D6)"

fun rounds :: "nat \<Rightarrow> int list \<Rightarrow> sha_state \<Rightarrow> sha_state" where
  "rounds t [] s = s"
| "rounds t (w # ws) (a, b, c, d, e) =
     rounds (Suc t) ws
       (add32 (add32 (add32 (add32 (rotl32 5 a) (sha1_f t b c d)) e) w) (sha1_k t),
        a, rotl32 30 b, c, d)"

definition compress :: "sha_state \<Rightarrow> int list \<Rightarrow> sha_state" where
  "compress s blk =
     (case s of (h0, h1, h2, h3, h4) \<Rightarrow>
        (case rounds 0 (rev (schedule 64 (rev (be32 blk)))) s of (a, b, c, d, e) \<Rightarrow>
           (add32 h0 a, add32 h1 b, add32 h2 c, add32 h3 d, add32 h4 e)))"

fun blocks :: "nat \<Rightarrow> sha_state \<Rightarrow> int list \<Rightarrow> sha_state" where
  "blocks 0 s m = s"
| "blocks (Suc n) s m = blocks n (compress s (take 64 m)) (drop 64 m)"

definition u32_bytes :: "int \<Rightarrow> int list" where
  "u32_bytes w =
     [take_bit 8 (drop_bit 24 w), take_bit 8 (drop_bit 16 w), take_bit 8 (drop_bit 8 w),
      take_bit 8 w]"

definition digest_bytes :: "sha_state \<Rightarrow> int list" where
  "digest_bytes s = (case s of (a, b, c, d, e) \<Rightarrow> concat (map u32_bytes [a, b, c, d, e]))"

definition sha1_Sum :: "string \<Rightarrow> int list" where
  "sha1_Sum m =
     (let p = sha1_pad (map of_char m)
      in digest_bytes
           (blocks (length p div 64)
              (0x67452301, 0xEFCDAB89, 0x98BADCFE, 0x10325476, 0xC3D2E1F0) p))"

section \<open>Key derivation\<close>

text \<open>The verb \<^verbatim>\<open>%x\<close> of \<^verbatim>\<open>fmt.Sprintf\<close> on bytes: two lower-case hex digits each.\<close>

definition hex_digit :: "int \<Rightarrow> char" where
  "hex_digit d = ''0123456789abcdef'' ! nat (d mod 16)"

definition hex :: "int list \<Rightarrow> string" where
  "hex bs = concat (map (\<lambda>b. [hex_digit (b div 16), hex_digit b]) bs)"

definition credsPath :: string where
  "credsPath = ''creds''"

definition credsPathPrefix :: string where
  "credsPathPrefix = credsPath @ ''/''"

text \<open>
  \<^verbatim>\<open>credKey\<close> hashes the name and splits the digest into the buckets
  \<^verbatim>\<open>hash[:2]\<close>, \<^verbatim>\<open>hash[2:4]\<close> and \<^verbatim>\<open>hash[4:]\<close>.
\<close>

definition credKey :: "string \<Rightarrow> string" where
  "credKey name =
     (let hash = sha1_Sum name;
          first = take 2 hash; second = take 2 (drop 2 hash); rest = drop 4 hash
      in credsPathPrefix @ hex first @ ''/'' @ hex second @ ''/'' @ hex rest)"

text \<open>\<^verbatim>\<open>strings.Join\<close>.\<close>

fun Join :: "string list \<Rightarrow> string \<Rightarrow> string" where
  "Join [] sep = []"
| "Join [x] sep = x"
| "Join (x # y # ys) sep = x @ sep @ Join (y # ys) sep"

text \<open>
  \<^verbatim>\<open>credKeyWithScopes\<close>. A Go slice may be \<^verbatim>\<open>nil\<close>: the scopes are a
  \<open>string list option\<close>, \<open>None\<close> for \<^verbatim>\<open>nil\<close>. \<^verbatim>\<open>sort.Strings\<close> sorts the
  caller's slice in place (byte-wise lexicographic order), so the function returns the
  key together with the slice as the caller sees it afterwards. The default
  \<^verbatim>\<open>[20]byte{65}\<close> is the byte 65 followed by nineteen zero bytes.
\<close>

definition credKeyWithScopes :: "string \<Rightarrow> string list option \<Rightarrow> string \<times> string list option" where
  "credKeyWithScopes key scopes =
     (let hashScopes0 = 65 # replicate 19 0;
          scopes' = map_option sort scopes;
          hashScopes = (case scopes' of None \<Rightarrow> hashScopes0
                        | Some s \<Rightarrow> sha1_Sum (Join s '',''))
      in (key @ ''/'' @ hex hashScopes, scopes'))"

section \<open>Configuration, tokens and the storage entries\<close>

text \<open>The struct \<^verbatim>\<open>config\<close> of \<^verbatim>\<open>path_config.go\<close>.\<close>

record config =
  ClientID :: string
  ClientSecret :: string
  TokenURL :: string
  Scopes :: "string list option"

text \<open>
  \<^verbatim>\<open>oauth2.Token\<close>. An instant is a number of nanoseconds; the zero
  \<^verbatim>\<open>time.Time\<close> (no expiry) is \<open>None\<close>. \<^verbatim>\<open>Valid\<close> and \<^verbatim>\<open>expired\<close> are
  the methods of the oauth2 library, with its \<^verbatim>\<open>expiryDelta\<close> of ten seconds; \<open>Valid\<close>
  takes the pointer, \<open>None\<close> for \<^verbatim>\<open>nil\<close>, and the reading of the clock.
\<close>

record token =
  AccessToken :: string
  TokenType :: string
  RefreshToken :: string
  Expiry :: "int option"

definition expiryDelta :: int where
  "expiryDelta = 10 * 1000000000"

definition expired :: "token \<Rightarrow> int \<Rightarrow> bool" where
  "expired t now = (case Expiry t of None \<Rightarrow> False | Some e \<Rightarrow> e - expiryDelta < now)"

definition Valid :: "token option \<Rightarrow> int \<Rightarrow> bool" where
  "Valid t now = (case t of None \<Rightarrow> False | Some tok \<Rightarrow> AccessToken tok \<noteq> [] \<and> \<not> expired tok now)"

datatype err =
    errInvalidCredentials
  | StorageError string
  | DecodeError
  | EncodeError
  | UpstreamError string

text \<open>
  What the storage holds under a key: the JSON of a token, the JSON of a configuration, or
  bytes that are no JSON object. Decoding a JSON object into the other struct finds none of
  its fields and leaves the zero value.
\<close>

datatype blob = TokenJSON token | ConfigJSON config | Malformed

definition zero_token :: token where
  "zero_token = \<lparr>AccessToken = [], TokenType = [], RefreshToken = [], Expiry = None\<rparr>"

definition zero_config :: config where
  "zero_config = \<lparr>ClientID = [], ClientSecret = [], TokenURL = [], Scopes = None\<rparr>"

fun DecodeJSON_token :: "blob \<Rightarrow> err + token" where
  "DecodeJSON_token (TokenJSON t) = Inr t"
| "DecodeJSON_token (ConfigJSON c) = Inr zero_token"
| "DecodeJSON_token Malformed = Inl DecodeError"

fun DecodeJSON_config :: "blob \<Rightarrow> err + config" where
  "DecodeJSON_config (ConfigJSON c) = Inr c"
| "DecodeJSON_config (TokenJSON t) = Inr zero_config"
| "DecodeJSON_config Malformed = Inl DecodeError"

text \<open>
  \<^verbatim>\<open>logical.StorageEntryJSON\<close> on a token fails only where \<^verbatim>\<open>time.Time\<close> cannot be
  marshalled: a year outside 0 to 9999.
\<close>

definition marshalable :: "int option \<Rightarrow> bool" where
  "marshalable e =
     (case e of None \<Rightarrow> True
      | Some t \<Rightarrow> - 62167219200 * 1000000000 \<le> t \<and> t < 253402300800 * 1000000000)"

definition StorageEntryJSON_token :: "token \<Rightarrow> err + blob" where
  "StorageEntryJSON_token t = (if marshalable (Expiry t) then Inr (TokenJSON t) else Inl EncodeError)"

section \<open>The world outside: storage, clock, token endpoint\<close>

text \<open>
  \<^verbatim>\<open>logical.Storage\<close> and the token endpoint are collaborators of the plugin. The
  storage is an association list with the semantics of Vault's in-memory storage, which
  the tests run on; any operation may fail as \<open>faults\<close> says. The endpoint answers the
  \<open>n\<close>-th exchange of a mount as \<open>endpoint n\<close> says: a token, an
  \<^verbatim>\<open>*oauth2.RetrieveError\<close> (the endpoint answered with a status outside 200 to 299) or
  any other error. \<open>trace\<close> records the effects in the order they happen.
\<close>

datatype reply = Issued token | RetrieveError nat string | OtherError string

datatype storage_op = OpGet string | OpPut string | OpDelete string | OpList string

datatype event =
    Lock
  | Unlock
  | StorageGet string
  | StoragePut string blob
  | StorageDelete string
  | StorageList string
  | Exchange config
  | LogError string

record world =
  entries :: "(string \<times> blob) list"
  faults :: "storage_op \<Rightarrow> string option"
  clock :: int
  endpoint :: "nat \<Rightarrow> config \<Rightarrow> reply"
  calls :: nat
  trace :: "event list"

definition log :: "world \<Rightarrow> event \<Rightarrow> world" where
  "log w e = w\<lparr>trace := trace w @ [e]\<rparr>"

definition storage_Get :: "world \<Rightarrow> string \<Rightarrow> (err + blob option) \<times> world" where
  "storage_Get w k =
     (case faults w (OpGet k) of
        Some e \<Rightarrow> (Inl (StorageError e), log w (StorageGet k))
      | None \<Rightarrow> (Inr (map_of (entries w) k), log w (StorageGet k)))"

definition storage_Put :: "world \<Rightarrow> string \<Rightarrow> blob \<Rightarrow> err option \<times> world" where
  "storage_Put w k v =
     (case faults w (OpPut k) of
        Some e \<Rightarrow> (Some (StorageError e), log w (StoragePut k v))
      | None \<Rightarrow> (None, (log w (StoragePut k v))\<lparr>entries := AList.update k v (entries w)\<rparr>))"

definition storage_Delete :: "world \<Rightarrow> string \<Rightarrow> err option \<times> world" where
  "storage_Delete w k =
     (case faults w (OpDelete k) of
        Some e \<Rightarrow> (Some (StorageError e), log w (StorageDelete k))
      | None \<Rightarrow> (None, (log w (StorageDelete k))\<lparr>entries := AList.delete k (entries w)\<rparr>))"

text \<open>
  \<^verbatim>\<open>List\<close> gives the children of a prefix: what follows the prefix in each key that
  starts with it, cut after the first \<^verbatim>\<open>/\<close>, each child once.
\<close>

definition has_prefix :: "string \<Rightarrow> string \<Rightarrow> bool" where
  "has_prefix k p = (take (length p) k = p)"

definition child :: "string \<Rightarrow> string \<Rightarrow> string" where
  "child p k =
     (let trimmed = drop (length p) k
      in if CHR ''/'' \<in> set trimmed then takeWhile (\<lambda>c. c \<noteq> CHR ''/'') trimmed @ ''/''
         else trimmed)"

definition storage_List :: "world \<Rightarrow> string \<Rightarrow> (err + string list) \<times> world" where
  "storage_List w p =
     (case faults w (OpList p) of
        Some e \<Rightarrow> (Inl (StorageError e), log w (StorageList p))
      | None \<Rightarrow>
          (Inr (remdups (map (child p) (filter (\<lambda>k. has_prefix k p) (map fst (entries w))))),
           log w (StorageList p)))"

text \<open>\<^verbatim>\<open>clientcredentials.Config.Token\<close>: one exchange with the token endpoint.\<close>

definition Token :: "world \<Rightarrow> config \<Rightarrow> reply \<times> world" where
  "Token w cfg = (endpoint w (calls w) cfg, (log w (Exchange cfg))\<lparr>calls := Suc (calls w)\<rparr>)"

text \<open>
  \<^verbatim>\<open>b.credMut\<close> is the one mutex of the backend. A caller of \<^verbatim>\<open>Lock\<close> waits while
  other requests hold the mutex: \<open>on_lock\<close> is what they do to the world in that time.
\<close>

definition credMut_Lock :: "(world \<Rightarrow> world) \<Rightarrow> world \<Rightarrow> world" where
  "credMut_Lock on_lock w = log (on_lock w) Lock"

definition credMut_Unlock :: "world \<Rightarrow> world" where
  "credMut_Unlock w = log w Unlock"

section \<open>The token broker: \<^verbatim>\<open>path_creds.go\<close>\<close>

text \<open>
  \<^verbatim>\<open>getTokenFromStorage\<close> returns the Go pair \<^verbatim>\<open>(*oauth2.Token, error)\<close> as it is,
  \<open>None\<close> for \<^verbatim>\<open>nil\<close>, since \<^verbatim>\<open>getToken\<close> tests both components.
\<close>

definition getTokenFromStorage :: "world \<Rightarrow> string \<Rightarrow> (token option \<times> err option) \<times> world" where
  "getTokenFromStorage w key =
     (case storage_Get w key of
        (Inl e, w1) \<Rightarrow> ((None, Some e), w1)
      | (Inr None, w1) \<Rightarrow> ((None, None), w1)
      | (Inr (Some entry), w1) \<Rightarrow>
          (case DecodeJSON_token entry of
             Inl e \<Rightarrow> ((None, Some e), w1)
           | Inr tok \<Rightarrow> ((Some tok, None), w1)))"

text \<open>The \<^verbatim>\<open>clientcredentials.Config\<close> that \<^verbatim>\<open>getToken\<close> builds.\<close>

definition exchange_config :: "config \<Rightarrow> string list option \<Rightarrow> config" where
  "exchange_config c scopes =
     \<lparr>ClientID = ClientID c, ClientSecret = ClientSecret c, TokenURL = TokenURL c,
      Scopes = (case scopes of None \<Rightarrow> Scopes c | Some s \<Rightarrow> Some s)\<rparr>"

text \<open>
  The part of \<^verbatim>\<open>getToken\<close> that runs with the mutex held, from the second read of the
  storage to the \<^verbatim>\<open>Put\<close>; the deferred \<^verbatim>\<open>Unlock\<close> follows every return.
\<close>

definition refresh_locked :: "world \<Rightarrow> config \<Rightarrow> string \<Rightarrow> (err + token option) \<times> world" where
  "refresh_locked w2 cfg key =
     (case getTokenFromStorage w2 key of
        ((tok, err), w3) \<Rightarrow>
          if err \<noteq> None \<and> tok \<noteq> None \<and> Valid tok (clock w3) then (Inr tok, w3)
          else
            (case Token w3 cfg of
               (RetrieveError status body, w4) \<Rightarrow>
                 (Inl errInvalidCredentials, log w4 (LogError ''Invalid client credentials''))
             | (OtherError e, w4) \<Rightarrow> (Inl (UpstreamError e), w4)
             | (Issued t, w4) \<Rightarrow>
                 (case StorageEntryJSON_token t of
                    Inl e \<Rightarrow> (Inl e, w4)
                  | Inr entry \<Rightarrow>
                      (case storage_Put w4 key entry of
                         (Some e, w5) \<Rightarrow> (Inl e, w5)
                       | (None, w5) \<Rightarrow> (Inr (Some t), w5)))))"

definition getToken ::
  "(world \<Rightarrow> world) \<Rightarrow> world \<Rightarrow> config \<Rightarrow> string \<Rightarrow> string list option
     \<Rightarrow> (err + token option) \<times> world" where
  "getToken on_lock w c key scopes =
     (case getTokenFromStorage w key of
        ((tok, Some e), w1) \<Rightarrow> (Inl e, w1)
      | ((tok, None), w1) \<Rightarrow>
          if tok = None \<or> \<not> Valid tok (clock w1) then
            (case refresh_locked (credMut_Lock on_lock w1) (exchange_config c scopes) key of
               (r, w') \<Rightarrow> (r, credMut_Unlock w'))
          else (Inr tok, w1))"

section \<open>The request handlers\<close>

datatype rvalue = VString string | VStrings "string list option" | VTime "int option"

datatype response = ErrorResponse string | Response "(string \<times> rvalue) list"

text \<open>
  The fields of a request on \<^verbatim>\<open>creds/:name\<close>: \<open>req_scopes\<close> is \<open>Some\<close> when
  \<^verbatim>\<open>data.GetOk("scopes")\<close> finds the field.
\<close>

record request =
  req_name :: string
  req_scopes :: "string list option"

definition configPath :: string where
  "configPath = ''config''"

definition getConfig :: "world \<Rightarrow> (err + config option) \<times> world" where
  "getConfig w =
     (case storage_Get w configPath of
        (Inl e, w1) \<Rightarrow> (Inl e, w1)
      | (Inr None, w1) \<Rightarrow> (Inr None, w1)
      | (Inr (Some entry), w1) \<Rightarrow>
          (case DecodeJSON_config entry of
             Inl e \<Rightarrow> (Inl e, w1)
           | Inr c \<Rightarrow> (Inr (Some c), w1)))"

definition configReadOperation :: "world \<Rightarrow> (err + response option) \<times> world" where
  "configReadOperation w =
     (case getConfig w of
        (Inl e, w1) \<Rightarrow> (Inl e, w1)
      | (Inr None, w1) \<Rightarrow> (Inr None, w1)
      | (Inr (Some c), w1) \<Rightarrow>
          (Inr (Some (Response
             [(''client_id'', VString (ClientID c)),
              (''token_url'', VString (TokenURL c)),
              (''scopes'', VStrings (Scopes c))])), w1))"

text \<open>
  In \<^verbatim>\<open>credsReadOperation\<close> the variable \<^verbatim>\<open>scopes\<close> is either the slice of the
  request or the very slice \<^verbatim>\<open>c.Scopes\<close>; in the second case the sort inside
  \<^verbatim>\<open>credKeyWithScopes\<close> also sorts \<^verbatim>\<open>c.Scopes\<close>.
\<close>

definition token_response :: "world \<Rightarrow> (err + token option) \<Rightarrow> err + response option" where
  "token_response w r =
     (case r of
        Inl e \<Rightarrow>
          if e = errInvalidCredentials then Inr (Some (ErrorResponse ''Invalid client credentials''))
          else Inl e
      | Inr None \<Rightarrow> Inr None
      | Inr (Some tok) \<Rightarrow>
          if \<not> Valid (Some tok) (clock w) then Inr (Some (ErrorResponse ''Token expired''))
          else Inr (Some (Response
                 [(''access_token'', VString (AccessToken tok)),
                  (''expires'', VTime (Expiry tok))])))"

definition credsReadOperation ::
  "(world \<Rightarrow> world) \<Rightarrow> world \<Rightarrow> request \<Rightarrow> (err + response option) \<times> world" where
  "credsReadOperation on_lock w req =
     (case getConfig w of
        (Inl e, w1) \<Rightarrow> (Inl e, w1)
      | (Inr None, w1) \<Rightarrow> (Inr (Some (ErrorResponse ''Not configured'')), w1)
      | (Inr (Some c), w1) \<Rightarrow>
          (let scopes = (case req_scopes req of Some d \<Rightarrow> Some d | None \<Rightarrow> Scopes c);
               (key, scopes') = credKeyWithScopes (credKey (req_name req)) scopes;
               c' = (case req_scopes req of Some d \<Rightarrow> c | None \<Rightarrow> c\<lparr>Scopes := scopes'\<rparr>)
           in case getToken on_lock w1 c' key scopes' of
                (r, w2) \<Rightarrow> (token_response w2 r, w2)))"

fun delete_each :: "world \<Rightarrow> string \<Rightarrow> string list \<Rightarrow> err option \<times> world" where
  "delete_each w key [] = (None, w)"
| "delete_each w key (scope # scopes) =
     (case storage_Delete w (key @ ''/'' @ scope) of
        (Some e, w1) \<Rightarrow> (Some e, w1)
      | (None, w1) \<Rightarrow> delete_each w1 key scopes)"

definition credsDeleteOperation ::
  "(world \<Rightarrow> world) \<Rightarrow> world \<Rightarrow> request \<Rightarrow> (err + response option) \<times> world" where
  "credsDeleteOperation on_lock w req =
     (let w1 = credMut_Lock on_lock w;
          key = credKey (req_name req)
      in case storage_List w1 (key @ ''/'') of
           (Inl e, w2) \<Rightarrow> (Inl e, credMut_Unlock w2)
         | (Inr scopes, w2) \<Rightarrow>
             (case delete_each w2 key scopes of
                (Some e, w3) \<Rightarrow> (Inl e, credMut_Unlock w3)
              | (None, w3) \<Rightarrow> (Inr None, credMut_Unlock w3)))"

section \<open>Notions used in the statements\<close>

text \<open>
  The world in which the upstream exchange of \<^verbatim>\<open>getToken\<close> starts: after the first read
  of the storage, the wait for the mutex and the second read; and the answer of the
  endpoint to that exchange.
\<close>

definition exchange_world :: "(world \<Rightarrow> world) \<Rightarrow> world \<Rightarrow> string \<Rightarrow> world" where
  "exchange_world on_lock w key =
     log (credMut_Lock on_lock (log w (StorageGet key))) (StorageGet key)"

definition upstream_reply ::
  "(world \<Rightarrow> world) \<Rightarrow> world \<Rightarrow> config \<Rightarrow> string \<Rightarrow> string list option \<Rightarrow> reply" where
  "upstream_reply on_lock w c key scopes =
     fst (Token (exchange_world on_lock w key) (exchange_config c scopes))"

text \<open>The scopes and the storage key of a read request under a configuration.\<close>

definition effective_scopes :: "config \<Rightarrow> request \<Rightarrow> string list option" where
  "effective_scopes c req = (case req_scopes req of Some d \<Rightarrow> Some d | None \<Rightarrow> Scopes c)"

definition token_key :: "config \<Rightarrow> request \<Rightarrow> string" where
  "token_key c req = fst (credKeyWithScopes (credKey (req_name req)) (effective_scopes c req))"

text \<open>
  The specification's reading of an upstream failure that rejects the credentials: an
  authentication or authorization failure, that is, an answer of the endpoint with status
  400 (\<^verbatim>\<open>invalid_client\<close>, \<^verbatim>\<open>unauthorized_client\<close>), 401 or 403.
\<close>

definition spec_credentials_rejected :: "reply \<Rightarrow> bool" where
  "spec_credentials_rejected r =
     (case r of RetrieveError status body \<Rightarrow> status = 400 \<or> status = 401 \<or> status = 403
      | _ \<Rightarrow> False)"

text \<open>
  The configuration as \<^verbatim>\<open>credsReadOperation\<close> passes it to \<^verbatim>\<open>getToken\<close>: without scopes
  in the request, \<^verbatim>\<open>c.Scopes\<close> has been sorted with the slice it shares.
\<close>

definition aliased_config :: "config \<Rightarrow> request \<Rightarrow> config" where
  "aliased_config c req =
     (case req_scopes req of Some d \<Rightarrow> c | None \<Rightarrow> c\<lparr>Scopes := map_option sort (Scopes c)\<rparr>)"

text \<open>The children that \<^verbatim>\<open>List\<close> reports under the bucket of a name.\<close>

definition stored_suffixes :: "world \<Rightarrow> string \<Rightarrow> string list" where
  "stored_suffixes w key =
     remdups (map (child (key @ ''/''))
       (filter (\<lambda>k. has_prefix k (key @ ''/'')) (map fst (entries w))))"

text \<open>The scopes a slice holds, as a set; a \<^verbatim>\<open>nil\<close> slice holds none.\<close>

definition scope_set :: "string list option \<Rightarrow> string set" where
  "scope_set scopes = (case scopes of None \<Rightarrow> {} | Some s \<Rightarrow> set s)"

section \<open>Concrete worlds\<close>

text \<open>The configuration and the tokens of the repository's tests.\<close>

definition bearer :: "string \<Rightarrow> int option \<Rightarrow> token" where
  "bearer a e = \<lparr>AccessToken = a, TokenType = ''bearer'', RefreshToken = [], Expiry = e\<rparr>"

definition client :: config where
  "client =
     \<lparr>ClientID = ''foo'', ClientSecret = ''bar'', TokenURL = ''http://localhost/token'',
      Scopes = Some [''a'', ''b'', ''c'']\<rparr>"

definition world0 :: "(string \<times> blob) list \<Rightarrow> (nat \<Rightarrow> config \<Rightarrow> reply) \<Rightarrow> world" where
  "world0 es ep =
     \<lparr>entries = es, faults = (\<lambda>_. None), clock = 0, endpoint = ep, calls = 0, trace = []\<rparr>"

text \<open>Another request, holding the mutex first, stores a token that never expires.\<close>

definition other_holder :: "world \<Rightarrow> world" where
  "other_holder w =
     w\<lparr>entries := AList.update ''k'' (TokenJSON (bearer ''cached'' None)) (entries w)\<rparr>"

definition read_user :: request where
  "read_user = \<lparr>req_name = ''user'', req_scopes = None\<rparr>"

definition fresh_world :: world where
  "fresh_world = world0 [] (\<lambda>n cfg. Issued (bearer ''fresh'' None))"

definition cached_world :: world where
  "cached_world =
     world0 [(''k'', TokenJSON (bearer ''abcd2'' (Some 3600000000000)))]
       (\<lambda>n cfg. Issued (bearer ''abcd3'' None))"

definition configured_world :: "reply \<Rightarrow> world" where
  "configured_world r = world0 [(configPath, ConfigJSON client)] (\<lambda>n cfg. r)"

definition failing_world :: "reply \<Rightarrow> world" where
  "failing_world r = world0 [] (\<lambda>n cfg. r)"


text \<open>
  A storage with the configuration, two tokens of the name \<open>user\<close> under different
  scopes, and a token of another name.
\<close>

definition stocked_world :: world where
  "stocked_world =
     world0
       [(configPath, ConfigJSON client),
        (fst (credKeyWithScopes (credKey ''user'') (Some [''a'', ''b'', ''c''])),
           TokenJSON (bearer ''abcd3'' None)),
        (fst (credKeyWithScopes (credKey ''user'') (Some [''a'', ''b'', ''c'', ''d'', ''e''])),
           TokenJSON (bearer ''abcd4'' None)),
        (fst (credKeyWithScopes (credKey ''other'') (Some [''a'', ''b'', ''c''])),
           TokenJSON (bearer ''abcd5'' None))]
       (\<lambda>n cfg. OtherError ''unreachable'')"

section \<open>SHA-1 and the shape of the keys\<close>

text \<open>The model of \<^verbatim>\<open>sha1.Sum\<close> on the test vectors of FIPS 180 (one and two blocks).\<close>

lemma sha1_Sum_abc:
  "hex (sha1_Sum ''abc'') = ''a9993e364706816aba3e25717850c26c9cd0d89d''"
  by code_simp

lemma sha1_Sum_two_blocks:
  "hex (sha1_Sum ''abcdbcdecdefdefgefghfghighijhijkijkljklmklmnlmnomnopnopq'')
     = ''84983e441c3bd26ebaae4aa1f95129e5e54670f1''"
  by code_simp

lemma length_hex [simp]: "length (hex bs) = 2 * length bs"
  by (induction bs) (simp_all add: hex_def)

lemma hex_digit_in: "hex_digit d \<in> set ''0123456789abcdef''"
proof -
  have "nat (d mod 16) < length ''0123456789abcdef''" by simp
  then show ?thesis unfolding hex_digit_def by (rule nth_mem)
qed

lemma hex_no_slash: "CHR ''/'' \<notin> set (hex bs)"
proof (induction bs)
  case Nil
  then show ?case by (simp add: hex_def)
next
  case (Cons b bs)
  have "CHR ''/'' \<noteq> hex_digit d" for d
    using hex_digit_in [of d] by auto
  with Cons show ?case by (simp add: hex_def)
qed

lemma length_digest_bytes [simp]: "length (digest_bytes s) = 20"
  by (cases s) (simp add: digest_bytes_def u32_bytes_def)

lemma length_sha1_Sum [simp]: "length (sha1_Sum m) = 20"
  by (simp add: sha1_Sum_def Let_def)

lemma length_credKey [simp]: "length (credKey n) = 48"
  by (simp add: credKey_def Let_def credsPathPrefix_def credsPath_def)

lemma credKeyWithScopes_fst:
  "\<exists>d. fst (credKeyWithScopes key scopes) = key @ ''/'' @ hex d \<and> length d = 20"
proof -
  let ?d = "case map_option sort scopes of None \<Rightarrow> 65 # replicate 19 0
            | Some s \<Rightarrow> sha1_Sum (Join s '','')"
  have "fst (credKeyWithScopes key scopes) = key @ ''/'' @ hex ?d"
    by (simp add: credKeyWithScopes_def)
  moreover have "length ?d = 20" by (cases scopes) simp_all
  ultimately show ?thesis by blast
qed

lemma credKeyWithScopes_snd [simp]: "snd (credKeyWithScopes key scopes) = map_option sort scopes"
  by (simp add: credKeyWithScopes_def)

text \<open>
  The hexadecimal form is injective on bytes, and the digest consists of bytes. So the key
  without scopes equals the key of a scope slice exactly when the SHA-1 of the joined
  slice is the default value itself.
\<close>

lemma hex_digit_inj: "hex_digit a = hex_digit b \<Longrightarrow> a mod 16 = b mod 16"
proof -
  assume h: "hex_digit a = hex_digit b"
  have d: "distinct ''0123456789abcdef''" by simp
  have "nat (a mod 16) < length ''0123456789abcdef''" "nat (b mod 16) < length ''0123456789abcdef''"
    by simp_all
  with d h have "nat (a mod 16) = nat (b mod 16)"
    unfolding hex_digit_def by (simp only: nth_eq_iff_index_eq)
  then show ?thesis by simp
qed

lemma small_mod16: "0 \<le> k \<Longrightarrow> k \<le> 15 \<Longrightarrow> k mod 16 = (k::int)"
  by simp

lemma div16_bounds: "0 \<le> x \<Longrightarrow> x < 256 \<Longrightarrow> 0 \<le> x div 16 \<and> x div 16 \<le> (15::int)"
  using zdiv_mono1 [of x 255 16] by (simp add: pos_imp_zdiv_nonneg_iff)

lemma hex_byte_inj:
  assumes "0 \<le> x" "x < 256" "0 \<le> y" "y < 256"
    and "hex_digit (x div 16) = hex_digit (y div 16)" and "hex_digit x = hex_digit y"
  shows "x = (y::int)"
proof -
  have a: "x div 16 mod 16 = y div 16 mod 16" using assms(5) by (rule hex_digit_inj)
  have m: "x mod 16 = y mod 16" using assms(6) by (rule hex_digit_inj)
  have ex: "x div 16 mod 16 = x div 16"
    using div16_bounds [OF assms(1) assms(2)] by (intro small_mod16) (rule conjunct1, assumption, rule conjunct2, assumption)
  have ey: "y div 16 mod 16 = y div 16"
    using div16_bounds [OF assms(3) assms(4)] by (intro small_mod16) (rule conjunct1, assumption, rule conjunct2, assumption)
  from a have d: "x div 16 = y div 16" by (simp only: ex ey)
  have "x = x div 16 * 16 + x mod 16" by (simp only: div_mult_mod_eq)
  also have "\<dots> = y div 16 * 16 + y mod 16" by (simp only: d m)
  also have "\<dots> = y" by (simp only: div_mult_mod_eq)
  finally show ?thesis .
qed

lemma hex_inj:
  "\<forall>b\<in>set xs. 0 \<le> b \<and> b < 256 \<Longrightarrow> \<forall>b\<in>set ys. 0 \<le> b \<and> b < 256 \<Longrightarrow>
   hex xs = hex ys \<Longrightarrow> xs = ys"
proof (induction xs arbitrary: ys)
  case Nil
  then show ?case by (cases ys) (simp_all add: hex_def)
next
  case (Cons x xs)
  then obtain y ys' where ys: "ys = y # ys'" by (cases ys) (simp_all add: hex_def)
  with Cons.prems have "hex_digit (x div 16) = hex_digit (y div 16)" "hex_digit x = hex_digit y"
    and tl: "hex xs = hex ys'"
    by (simp_all add: hex_def)
  with Cons.prems ys have "x = y" by (intro hex_byte_inj) simp_all
  moreover from Cons.IH [of ys'] Cons.prems ys tl have "xs = ys'" by simp
  ultimately show ?case using ys by simp
qed

lemma digest_bytes_range: "\<forall>b\<in>set (digest_bytes s). 0 \<le> b \<and> b < 256"
proof -
  have "take_bit 8 k < (256::int)" for k
    using take_bit_int_less_exp [of 8 k] by simp
  then show ?thesis by (cases s) (simp add: digest_bytes_def u32_bytes_def)
qed

lemma sha1_Sum_range: "\<forall>b\<in>set (sha1_Sum m). 0 \<le> b \<and> b < 256"
  unfolding sha1_Sum_def Let_def by (rule digest_bytes_range)

lemma credKeyWithScopes_nil_collision:
  "fst (credKeyWithScopes key None) = fst (credKeyWithScopes key (Some s))
     \<longleftrightarrow> sha1_Sum (Join (sort s) '','') = 65 # replicate 19 0"
proof -
  have r: "\<forall>b\<in>set (65 # replicate 19 0). 0 \<le> b \<and> b < (256::int)" by simp
  have "hex (65 # replicate 19 0) = hex (sha1_Sum (Join (sort s) '',''))
          \<Longrightarrow> 65 # replicate 19 0 = sha1_Sum (Join (sort s) '','')"
    by (rule hex_inj [OF r sha1_Sum_range])
  then show ?thesis by (auto simp: credKeyWithScopes_def)
qed

section \<open>Key derivation: C2, C3, C9\<close>

text \<open>
  C2 (as stated, fails): scope slices that are equal as sets may derive different keys.
  The slices \<open>[a, a]\<close> and \<open>[a]\<close> hold the same set of scopes, and so do the
  \<^verbatim>\<open>nil\<close> slice and the empty slice that is not \<^verbatim>\<open>nil\<close>; in both pairs the keys
  differ. The code sorts the scopes, removes no duplicate, and gives \<^verbatim>\<open>nil\<close> the default
  suffix while it hashes the empty string for the empty slice.
\<close>

theorem credKeyWithScopes_set_equal_counterexample:
  "scope_set (Some [''a'', ''a'']) = scope_set (Some [''a'']) \<and>
   fst (credKeyWithScopes (credKey ''user'') (Some [''a'', ''a'']))
     \<noteq> fst (credKeyWithScopes (credKey ''user'') (Some [''a''])) \<and>
   scope_set None = scope_set (Some []) \<and>
   fst (credKeyWithScopes (credKey ''user'') None)
     \<noteq> fst (credKeyWithScopes (credKey ''user'') (Some []))"
  by code_simp

text \<open>
  C2 (amended): for every name and every two scope slices that are either both
  \<^verbatim>\<open>nil\<close>, or both not \<^verbatim>\<open>nil\<close> and permutations of each other (the same scopes with
  the same multiplicities, in any order), the derived key is the same.
\<close>

theorem credKeyWithScopes_permutation: 
  "map_option mset s1 = map_option mset s2 \<Longrightarrow>
   fst (credKeyWithScopes (credKey n) s1) = fst (credKeyWithScopes (credKey n) s2)"
proof (cases s1)
  case None
  assume "map_option mset s1 = map_option mset s2"
  with None have "s2 = None" by (cases s2) simp_all
  with None show ?thesis by simp
next
  case (Some a)
  assume h: "map_option mset s1 = map_option mset s2"
  with Some obtain b where b: "s2 = Some b" and "mset a = mset b" by (cases s2) simp_all
  then have "sort a = sort b" by (metis properties_for_sort sorted_sort mset_sort)
  with Some b show ?thesis by (simp add: credKeyWithScopes_def)
qed

text \<open>The witness of C2: the reordered scopes of the repository's test.\<close>

theorem credKeyWithScopes_permutation_witness:
  "map_option mset (Some [''a'', ''b'', ''c'', ''e'', ''d''])
     = map_option mset (Some [''a'', ''b'', ''c'', ''d'', ''e'']) \<and>
   fst (credKeyWithScopes (credKey ''user2'') (Some [''a'', ''b'', ''c'', ''e'', ''d'']))
     = fst (credKeyWithScopes (credKey ''user2'') (Some [''a'', ''b'', ''c'', ''d'', ''e'']))"
proof -
  have h: "map_option mset (Some [''a'', ''b'', ''c'', ''e'', ''d''])
             = map_option mset (Some [''a'', ''b'', ''c'', ''d'', ''e''])"
    by (simp add: add_mset_commute)
  from h credKeyWithScopes_permutation [OF h, of "''user2''"] show ?thesis by (rule conjI)
qed

text \<open>
  C3 (the code differs from the claim and from its own comment): without scopes the suffix
  is the hexadecimal form of the twenty bytes 41 00 ... 00. It has the forty digits of every
  hashed suffix, here next to the one of the empty slice, the SHA-1 of the empty string:
  the default is a value of the digest type, not a single byte, and nothing but the hash
  itself keeps a scope slice from deriving it.
\<close>

theorem credKeyWithScopes_nil_suffix:
  "fst (credKeyWithScopes (credKey ''user'') None) =
     ''creds/12de/a96f/ec20593566ab75692c9949596833adc9/4100000000000000000000000000000000000000'' \<and>
   fst (credKeyWithScopes (credKey ''user'') (Some [])) =
     ''creds/12de/a96f/ec20593566ab75692c9949596833adc9/da39a3ee5e6b4b0d3255bfef95601890afd80709''"
  by code_simp

text \<open>
  C9 (as stated, fails): \<^verbatim>\<open>credKeyWithScopes\<close> changes its argument. After the call the
  caller's slice \<open>[b, a]\<close> is \<open>[a, b]\<close>.
\<close>

theorem credKeyWithScopes_sorts_argument_counterexample:
  "snd (credKeyWithScopes (credKey ''user'') (Some [''b'', ''a''])) \<noteq> Some [''b'', ''a'']"
  by (simp add: credKeyWithScopes_def)

text \<open>
  C9 (amended): key derivation is total and never fails: for every name \<^verbatim>\<open>credKey\<close>
  gives a key of 48 characters, and for every scope slice, \<^verbatim>\<open>nil\<close> and empty included,
  \<^verbatim>\<open>credKeyWithScopes\<close> gives a key of 89 characters. \<^verbatim>\<open>credKey\<close> has no side effect;
  \<^verbatim>\<open>credKeyWithScopes\<close> has one: it sorts the caller's slice in place, so that the slice
  is afterwards the sorted one (\<^verbatim>\<open>nil\<close> stays \<^verbatim>\<open>nil\<close>). On a slice that is sorted already
  it gives the same key and changes nothing.
\<close>

theorem key_derivation_total:
  "length (credKey n) = 48 \<and>
   length (fst (credKeyWithScopes (credKey n) scopes)) = 89 \<and>
   snd (credKeyWithScopes (credKey n) scopes) = map_option sort scopes \<and>
   credKeyWithScopes (credKey n) (map_option sort scopes) = credKeyWithScopes (credKey n) scopes"
proof -
  obtain d where "fst (credKeyWithScopes (credKey n) scopes) = credKey n @ ''/'' @ hex d"
    and "length d = 20"
    using credKeyWithScopes_fst [of "credKey n" scopes] by auto
  then have "length (fst (credKeyWithScopes (credKey n) scopes)) = 89" by simp
  moreover have "credKeyWithScopes (credKey n) (map_option sort scopes)
      = credKeyWithScopes (credKey n) scopes"
    by (cases scopes) (simp_all add: credKeyWithScopes_def sorted_sort_id)
  ultimately show ?thesis by simp
qed

text \<open>The witness of C9: the name and the unsorted slice of the counterexample.\<close>

theorem key_derivation_total_witness:
  "length (credKey ''user'') = 48 \<and>
   length (fst (credKeyWithScopes (credKey ''user'') (Some [''b'', ''a'']))) = 89 \<and>
   snd (credKeyWithScopes (credKey ''user'') (Some [''b'', ''a''])) = Some [''a'', ''b'']"
  using key_derivation_total [of "''user''" "Some [''b'', ''a'']"] by simp

section \<open>The storage and the broker: helper lemmas\<close>

lemma log_fields [simp]:
  "entries (log w e) = entries w" "faults (log w e) = faults w" "clock (log w e) = clock w"
  "endpoint (log w e) = endpoint w" "calls (log w e) = calls w" "trace (log w e) = trace w @ [e]"
  by (simp_all add: log_def)

lemma credMut_fields [simp]:
  "entries (credMut_Unlock w) = entries w" "faults (credMut_Unlock w) = faults w"
  "clock (credMut_Unlock w) = clock w" "endpoint (credMut_Unlock w) = endpoint w"
  "calls (credMut_Unlock w) = calls w" "trace (credMut_Unlock w) = trace w @ [Unlock]"
  by (simp_all add: credMut_Unlock_def)

lemma storage_Get_snd [simp]: "snd (storage_Get w k) = log w (StorageGet k)"
  by (simp add: storage_Get_def split: option.splits)

lemma getTokenFromStorage_snd [simp]: "snd (getTokenFromStorage w k) = log w (StorageGet k)"
  by (simp add: getTokenFromStorage_def storage_Get_def split: sum.splits option.splits)

lemma getTokenFromStorage_not_both:
  "fst (getTokenFromStorage w k) = (tok, Some e) \<Longrightarrow> tok = None"
  by (auto simp: getTokenFromStorage_def split: prod.splits sum.splits option.splits)

lemma getTokenFromStorage_hit:
  "faults w (OpGet k) = None \<Longrightarrow> map_of (entries w) k = Some b \<Longrightarrow> DecodeJSON_token b = Inr t \<Longrightarrow>
   getTokenFromStorage w k = ((Some t, None), log w (StorageGet k))"
  by (simp add: getTokenFromStorage_def storage_Get_def)

lemma getTokenFromStorage_Some:
  "fst (getTokenFromStorage w k) = (Some t, e) \<Longrightarrow>
   e = None \<and> faults w (OpGet k) = None \<and> (\<exists>b. map_of (entries w) k = Some b \<and> DecodeJSON_token b = Inr t)"
  by (auto simp: getTokenFromStorage_def storage_Get_def split: prod.splits sum.splits option.splits)

text \<open>
  With the mutex held, the test \<^verbatim>\<open>err != nil && tok != nil && tok.Valid()\<close> never
  succeeds, since \<^verbatim>\<open>getTokenFromStorage\<close> returns no token together with an error: the
  second read has no influence, and the upstream exchange always follows.
\<close>

lemma refresh_locked_exchanges:
  "refresh_locked w2 cfg key =
     (case Token (log w2 (StorageGet key)) cfg of
        (RetrieveError status body, w4) \<Rightarrow>
          (Inl errInvalidCredentials, log w4 (LogError ''Invalid client credentials''))
      | (OtherError e, w4) \<Rightarrow> (Inl (UpstreamError e), w4)
      | (Issued t, w4) \<Rightarrow>
          (case StorageEntryJSON_token t of
             Inl e \<Rightarrow> (Inl e, w4)
           | Inr entry \<Rightarrow>
               (case storage_Put w4 key entry of
                  (Some e, w5) \<Rightarrow> (Inl e, w5)
                | (None, w5) \<Rightarrow> (Inr (Some t), w5))))"
proof -
  obtain tok err w3 where g: "getTokenFromStorage w2 key = ((tok, err), w3)"
    by (metis surj_pair)
  have w3: "w3 = log w2 (StorageGet key)"
    using getTokenFromStorage_snd [of w2 key] g by simp
  have dead: "\<not> (err \<noteq> None \<and> tok \<noteq> None \<and> Valid tok (clock w3))"
    using getTokenFromStorage_not_both [of w2 key tok] g by auto
  show ?thesis
    unfolding refresh_locked_def g using dead w3 by auto
qed

lemma getToken_fast_path:
  assumes "faults w (OpGet key) = None" and "map_of (entries w) key = Some b"
    and "DecodeJSON_token b = Inr t" and "Valid (Some t) (clock w)"
  shows "getToken on_lock w c key scopes = (Inr (Some t), log w (StorageGet key))"
  using assms by (simp add: getToken_def getTokenFromStorage_hit)

lemma getToken_slow_path:
  assumes "fst (getTokenFromStorage w key) = (tok, None)" and "\<not> Valid tok (clock w)"
  shows "getToken on_lock w c key scopes =
           (case refresh_locked (credMut_Lock on_lock (log w (StorageGet key))) (exchange_config c scopes) key
            of (r, w') \<Rightarrow> (r, credMut_Unlock w'))"
proof -
  have g: "getTokenFromStorage w key = ((tok, None), log w (StorageGet key))"
    using assms(1) getTokenFromStorage_snd [of w key] by (metis prod.collapse)
  show ?thesis unfolding getToken_def g using assms(2) by simp
qed

lemma getToken_success_cases:
  assumes "fst (getToken on_lock w c key scopes) = Inr (Some t)"
  shows "(fst (getTokenFromStorage w key) = (Some t, None) \<and> Valid (Some t) (clock w) \<and>
          snd (getToken on_lock w c key scopes) = log w (StorageGet key))
       \<or> (\<not> Valid (fst (fst (getTokenFromStorage w key))) (clock w) \<and>
          upstream_reply on_lock w c key scopes = Issued t \<and>
          map_of (entries (snd (getToken on_lock w c key scopes))) key = Some (TokenJSON t) \<and>
          trace (snd (getToken on_lock w c key scopes)) =
            trace (exchange_world on_lock w key) @
              [Exchange (exchange_config c scopes), StoragePut key (TokenJSON t), Unlock])"
proof -
  obtain tok err where g: "fst (getTokenFromStorage w key) = (tok, err)"
    by (metis surj_pair)
  then have g': "getTokenFromStorage w key = ((tok, err), log w (StorageGet key))"
    using getTokenFromStorage_snd [of w key] by (metis prod.collapse)
  show ?thesis
  proof (cases err)
    case (Some e)
    with assms g' show ?thesis by (simp add: getToken_def)
  next
    case None
    show ?thesis
    proof (cases "Valid tok (clock w)")
      case True
      then obtain t' where "tok = Some t'" by (cases tok) (simp_all add: Valid_def)
      with assms g g' None True show ?thesis by (simp add: getToken_def)
    next
      case False
      have slow: "getToken on_lock w c key scopes =
           (case refresh_locked (credMut_Lock on_lock (log w (StorageGet key))) (exchange_config c scopes) key
            of (r, w') \<Rightarrow> (r, credMut_Unlock w'))"
        using getToken_slow_path [of w key tok] g None False by simp
      have "\<not> Valid (fst (fst (getTokenFromStorage w key))) (clock w)"
        using g False by simp
      moreover have "upstream_reply on_lock w c key scopes = Issued t \<and>
          map_of (entries (snd (getToken on_lock w c key scopes))) key = Some (TokenJSON t) \<and>
          trace (snd (getToken on_lock w c key scopes)) =
            trace (exchange_world on_lock w key) @
              [Exchange (exchange_config c scopes), StoragePut key (TokenJSON t), Unlock]"
        using assms unfolding slow refresh_locked_exchanges upstream_reply_def exchange_world_def
        by (auto simp: Token_def StorageEntryJSON_token_def storage_Put_def update_conv'
                 split: reply.splits sum.splits option.splits prod.splits if_splits)
      ultimately show ?thesis by blast
    qed
  qed
qed

lemma getToken_success_stored:
  assumes "fst (getToken on_lock w c key scopes) = Inr (Some t)"
  shows "\<exists>b. map_of (entries (snd (getToken on_lock w c key scopes))) key = Some b \<and>
             DecodeJSON_token b = Inr t"
  using getToken_success_cases [OF assms]
proof
  assume a: "fst (getTokenFromStorage w key) = (Some t, None) \<and> Valid (Some t) (clock w) \<and>
          snd (getToken on_lock w c key scopes) = log w (StorageGet key)"
  then show ?thesis using getTokenFromStorage_Some [of w key t None] by simp
next
  assume "\<not> Valid (fst (fst (getTokenFromStorage w key))) (clock w) \<and>
          upstream_reply on_lock w c key scopes = Issued t \<and>
          map_of (entries (snd (getToken on_lock w c key scopes))) key = Some (TokenJSON t) \<and>
          trace (snd (getToken on_lock w c key scopes)) =
            trace (exchange_world on_lock w key) @
              [Exchange (exchange_config c scopes), StoragePut key (TokenJSON t), Unlock]"
  then show ?thesis by simp
qed


lemma getConfig_snd [simp]: "snd (getConfig w) = log w (StorageGet configPath)"
  by (simp add: getConfig_def storage_Get_def split: sum.splits option.splits)

lemma getConfig_Some:
  "fst (getConfig w) = Inr (Some c) \<Longrightarrow>
   faults w (OpGet configPath) = None \<and>
   (\<exists>b. map_of (entries w) configPath = Some b \<and> DecodeJSON_config b = Inr c)"
  by (auto simp: getConfig_def storage_Get_def split: sum.splits option.splits)

lemma getConfig_hit:
  "faults w (OpGet configPath) = None \<Longrightarrow> map_of (entries w) configPath = Some b \<Longrightarrow>
   DecodeJSON_config b = Inr c \<Longrightarrow> getConfig w = (Inr (Some c), log w (StorageGet configPath))"
  by (simp add: getConfig_def storage_Get_def)

lemma credsRead_configured:
  assumes "fst (getConfig w) = Inr (Some c)"
  shows "credsReadOperation on_lock w req =
     (token_response
        (snd (getToken on_lock (log w (StorageGet configPath)) (aliased_config c req) (token_key c req)
                (map_option sort (effective_scopes c req))))
        (fst (getToken on_lock (log w (StorageGet configPath)) (aliased_config c req) (token_key c req)
                (map_option sort (effective_scopes c req)))),
      snd (getToken on_lock (log w (StorageGet configPath)) (aliased_config c req) (token_key c req)
                (map_option sort (effective_scopes c req))))"
proof -
  have g: "getConfig w = (Inr (Some c), log w (StorageGet configPath))"
    using assms getConfig_snd [of w] by (metis prod.collapse)
  show ?thesis
    unfolding credsReadOperation_def g
    by (simp add: Let_def token_key_def effective_scopes_def aliased_config_def
          credKeyWithScopes_def split: prod.splits option.splits)
qed

lemma token_response_Response:
  "token_response w r = Inr (Some (Response d)) \<Longrightarrow>
   \<exists>tok. r = Inr (Some tok) \<and> Valid (Some tok) (clock w) \<and>
         d = [(''access_token'', VString (AccessToken tok)), (''expires'', VTime (Expiry tok))]"
  by (auto simp: token_response_def split: sum.splits option.splits if_splits)

lemma storage_Delete_ok:
  "fst (storage_Delete w k) = None \<Longrightarrow>
   snd (storage_Delete w k) = (log w (StorageDelete k))\<lparr>entries := AList.delete k (entries w)\<rparr>"
  by (simp add: storage_Delete_def split: option.splits)

lemma delete_each_ok:
  "fst (delete_each w key ss) = None \<Longrightarrow>
   map_of (entries (snd (delete_each w key ss))) k =
     (if k \<in> (\<lambda>s. key @ ''/'' @ s) ` set ss then None else map_of (entries w) k) \<and>
   trace (snd (delete_each w key ss)) = trace w @ map (\<lambda>s. StorageDelete (key @ ''/'' @ s)) ss"
proof (induction ss arbitrary: w)
  case Nil
  then show ?case by simp
next
  case (Cons s ss)
  let ?d = "storage_Delete w (key @ ''/'' @ s)"
  from Cons.prems have ok: "fst ?d = None"
    by (cases ?d) (auto split: option.splits)
  then have step: "delete_each w key (s # ss) = delete_each (snd ?d) key ss"
    by (cases ?d) simp
  from Cons.prems step have "fst (delete_each (snd ?d) key ss) = None" by simp
  from Cons.IH [OF this] show ?case
    unfolding step storage_Delete_ok [OF ok] by (auto simp: delete_conv')
qed

lemma child_of_leaf: "CHR ''/'' \<notin> set h \<Longrightarrow> child p (p @ h) = h"
  by (simp add: child_def)

section \<open>The token broker: C1, C5, C6, C7\<close>

text \<open>
  C1 (the code differs from the claim): a request finds no token under the key and waits
  for the mutex; meanwhile another request stores a valid token there. The second read,
  with the mutex held, succeeds and yields that valid token. All the same \<^verbatim>\<open>getToken\<close>
  goes on to the upstream exchange, writes the new token over the stored one and returns
  the new token.
\<close>

theorem getToken_reread_ignored: 
  "fst (getTokenFromStorage
          (credMut_Lock other_holder (snd (getTokenFromStorage fresh_world ''k''))) ''k'')
     = (Some (bearer ''cached'' None), None) \<and>
   Valid (Some (bearer ''cached'' None)) (clock fresh_world) \<and>
   fst (getToken other_holder fresh_world client ''k'' None) = Inr (Some (bearer ''fresh'' None)) \<and>
   trace (snd (getToken other_holder fresh_world client ''k'' None)) =
     [StorageGet ''k'', Lock, StorageGet ''k'', Exchange client,
      StoragePut ''k'' (TokenJSON (bearer ''fresh'' None)), Unlock] \<and>
   map_of (entries (snd (getToken other_holder fresh_world client ''k'' None))) ''k''
     = Some (TokenJSON (bearer ''fresh'' None))"
  by code_simp

text \<open>
  C5: when the storage holds under the key a record that decodes to a valid token,
  \<^verbatim>\<open>getToken\<close> returns that token, and all it does is the one read of the storage: no
  lock, no exchange, no write. Hence, when a read of a credential has answered with a
  token, a second read of the same name and scopes answers with the same access token
  and expiry, and does nothing but read the configuration and the token record. The
  second read starts in the world the first one left, at any time \<open>t2\<close> at which the
  token has not expired (its expiry, if any, is at least the margin away); the
  configuration is the one the first read saw, and the storage does not fail on the two
  reads.
\<close>

theorem getToken_cached_read:
  "(faults w (OpGet key) = None \<and> map_of (entries w) key = Some b \<and>
    DecodeJSON_token b = Inr t \<and> Valid (Some t) (clock w)
      \<longrightarrow> getToken on_lock w c key scopes = (Inr (Some t), log w (StorageGet key)))
   \<and>
   (fst (getConfig w) = Inr (Some cfg) \<and>
    credsReadOperation on_lock w req =
      (Inr (Some (Response [(''access_token'', VString a), (''expires'', VTime e)])), w1) \<and>
    map_of (entries w1) configPath = map_of (entries w) configPath \<and>
    faults w1 (OpGet configPath) = None \<and> faults w1 (OpGet (token_key cfg req)) = None \<and>
    (\<forall>x. e = Some x \<longrightarrow> t2 \<le> x - expiryDelta)
      \<longrightarrow> credsReadOperation on_lock2 (w1\<lparr>clock := t2\<rparr>) req =
            (Inr (Some (Response [(''access_token'', VString a), (''expires'', VTime e)])),
             log (log (w1\<lparr>clock := t2\<rparr>) (StorageGet configPath)) (StorageGet (token_key cfg req))))"
proof (intro conjI impI)
  assume "faults w (OpGet key) = None \<and> map_of (entries w) key = Some b \<and>
    DecodeJSON_token b = Inr t \<and> Valid (Some t) (clock w)"
  then show "getToken on_lock w c key scopes = (Inr (Some t), log w (StorageGet key))"
    by (simp add: getToken_fast_path)
next
  let ?k = "token_key cfg req"
  let ?d = "[(''access_token'', VString a), (''expires'', VTime e)]"
  let ?g = "getToken on_lock (log w (StorageGet configPath)) (aliased_config cfg req) ?k
              (map_option sort (effective_scopes cfg req))"
  let ?w2 = "w1\<lparr>clock := t2\<rparr>"
  assume h: "fst (getConfig w) = Inr (Some cfg) \<and>
    credsReadOperation on_lock w req = (Inr (Some (Response ?d)), w1) \<and>
    map_of (entries w1) configPath = map_of (entries w) configPath \<and>
    faults w1 (OpGet configPath) = None \<and> faults w1 (OpGet ?k) = None \<and>
    (\<forall>x. e = Some x \<longrightarrow> t2 \<le> x - expiryDelta)"
  then have cfg: "fst (getConfig w) = Inr (Some cfg)" by simp
  from h have "credsReadOperation on_lock w req = (Inr (Some (Response ?d)), w1)" by blast
  then have pair: "(token_response (snd ?g) (fst ?g), snd ?g) = (Inr (Some (Response ?d)), w1)"
    unfolding credsRead_configured [OF cfg] .
  have w1: "w1 = snd ?g" using arg_cong [OF pair, of snd] by simp
  have resp: "token_response (snd ?g) (fst ?g) = Inr (Some (Response ?d))"
    using arg_cong [OF pair, of fst] by simp
  from token_response_Response [OF resp] obtain tok where
    tok: "fst ?g = Inr (Some tok)" and valid: "Valid (Some tok) (clock w1)"
    and a: "a = AccessToken tok" and e: "e = Expiry tok"
    using w1 by auto
  from getToken_success_stored [OF tok] obtain bt where
    stored: "map_of (entries w1) ?k = Some bt" and dec: "DecodeJSON_token bt = Inr tok"
    using w1 by auto
  from getConfig_Some [OF cfg] obtain bc where
    "map_of (entries w) configPath = Some bc" and decc: "DecodeJSON_config bc = Inr cfg"
    by auto
  with h have bc: "map_of (entries ?w2) configPath = Some bc" by simp
  have gc: "getConfig ?w2 = (Inr (Some cfg), log ?w2 (StorageGet configPath))"
    using getConfig_hit [OF _ bc decc] h by simp
  have valid2: "Valid (Some tok) t2"
    using valid h e by (auto simp: Valid_def expired_def split: option.splits)
  have fast: "getToken on_lock2 (log ?w2 (StorageGet configPath)) (aliased_config cfg req) ?k
                (map_option sort (effective_scopes cfg req))
              = (Inr (Some tok), log (log ?w2 (StorageGet configPath)) (StorageGet ?k))"
    using h stored dec valid2 by (intro getToken_fast_path [of _ _ bt]) simp_all
  have cfg2: "fst (getConfig ?w2) = Inr (Some cfg)" using gc by simp
  show "credsReadOperation on_lock2 ?w2 req =
          (Inr (Some (Response ?d)), log (log ?w2 (StorageGet configPath)) (StorageGet ?k))"
    unfolding credsRead_configured [OF cfg2] fast
    using valid2 a e by (simp add: token_response_def)
qed

text \<open>
  The witness of C5: a storage that holds a valid token, and two reads of the credential
  \<open>user\<close>, the first of which fetches the token from the endpoint.
\<close>

theorem getToken_cached_read_witness:
  "getToken id cached_world client ''k'' None =
     (Inr (Some (bearer ''abcd2'' (Some 3600000000000))), log cached_world (StorageGet ''k'')) \<and>
   fst (credsReadOperation id (configured_world (Issued (bearer ''abcd2'' (Some 3600000000000)))) read_user)
     = Inr (Some (Response [(''access_token'', VString ''abcd2''),
                            (''expires'', VTime (Some 3600000000000))])) \<and>
   credsReadOperation id
     ((snd (credsReadOperation id
              (configured_world (Issued (bearer ''abcd2'' (Some 3600000000000)))) read_user))
        \<lparr>clock := 1000000000000\<rparr>) read_user =
     (Inr (Some (Response [(''access_token'', VString ''abcd2''),
                           (''expires'', VTime (Some 3600000000000))])),
      log (log ((snd (credsReadOperation id
                  (configured_world (Issued (bearer ''abcd2'' (Some 3600000000000)))) read_user))
                 \<lparr>clock := 1000000000000\<rparr>) (StorageGet configPath))
          (StorageGet (token_key client read_user)))"
proof -
  let ?t = "bearer ''abcd2'' (Some 3600000000000)"
  let ?w = "configured_world (Issued ?t)"
  let ?X = "credsReadOperation id ?w read_user"
  let ?d = "[(''access_token'', VString ''abcd2''), (''expires'', VTime (Some 3600000000000))]"
  have a: "faults cached_world (OpGet ''k'') = None \<and>
           map_of (entries cached_world) ''k'' = Some (TokenJSON ?t) \<and>
           DecodeJSON_token (TokenJSON ?t) = Inr ?t \<and> Valid (Some ?t) (clock cached_world)"
    by code_simp
  note fast = getToken_cached_read [where w = cached_world and key = "''k''" and b = "TokenJSON ?t"
      and t = ?t and on_lock = id and c = client and scopes = None,
      THEN conjunct1, THEN mp, OF a]
  have first: "fst ?X = Inr (Some (Response ?d))" by code_simp
  have pair: "?X = (Inr (Some (Response ?d)), snd ?X)"
    by (rule prod_eqI) (simp_all add: first)
  have cfg: "fst (getConfig ?w) = Inr (Some client)" by code_simp
  have same: "map_of (entries (snd ?X)) configPath = map_of (entries ?w) configPath" by code_simp
  have nf: "faults (snd ?X) (OpGet configPath) = None \<and>
            faults (snd ?X) (OpGet (token_key client read_user)) = None" by code_simp
  have live: "\<forall>x. Some 3600000000000 = Some x \<longrightarrow> (1000000000000::int) \<le> x - expiryDelta"
    by (simp add: expiryDelta_def)
  have h: "fst (getConfig ?w) = Inr (Some client) \<and>
    credsReadOperation id ?w read_user = (Inr (Some (Response ?d)), snd ?X) \<and>
    map_of (entries (snd ?X)) configPath = map_of (entries ?w) configPath \<and>
    faults (snd ?X) (OpGet configPath) = None \<and>
    faults (snd ?X) (OpGet (token_key client read_user)) = None \<and>
    (\<forall>x. Some 3600000000000 = Some x \<longrightarrow> (1000000000000::int) \<le> x - expiryDelta)"
    using cfg pair same nf live by blast
  note second = getToken_cached_read [where w = ?w and cfg = client and on_lock = id
      and req = read_user and a = "''abcd2''" and e = "Some 3600000000000" and ?w1.0 = "snd ?X"
      and ?t2.0 = 1000000000000 and ?on_lock2.0 = id, THEN conjunct2, THEN mp, OF h]
  from fast first second show ?thesis by (intro conjI)
qed

text \<open>
  C6 (as stated, fails): the token endpoint answers 404 Not Found, which rejects no
  credentials, and \<^verbatim>\<open>getToken\<close> returns \<^verbatim>\<open>errInvalidCredentials\<close>, as the repository's
  test of invalid credentials expects.
\<close>

theorem getToken_not_found_counterexample:
  "\<not> spec_credentials_rejected (RetrieveError 404 []) \<and>
   upstream_reply id (failing_world (RetrieveError 404 [])) client ''k'' None = RetrieveError 404 [] \<and>
   fst (getToken id (failing_world (RetrieveError 404 [])) client ''k'' None) = Inl errInvalidCredentials"
  by code_simp

text \<open>
  C6 (amended): when the stored token is absent or not valid, the upstream exchange
  decides. If it fails with a \<^verbatim>\<open>*oauth2.RetrieveError\<close>, that is, the endpoint answered
  with any status outside 200 to 299, \<^verbatim>\<open>getToken\<close> returns
  \<^verbatim>\<open>errInvalidCredentials\<close>; any other upstream error is returned unchanged; and when
  the exchange succeeds the result is never \<^verbatim>\<open>errInvalidCredentials\<close>. In both cases of
  failure the storage keeps the entries it had when the exchange started, and after the
  exchange nothing happens but the log line and the release of the mutex.
\<close>

theorem getToken_upstream_failure:
  assumes "fst (getTokenFromStorage w key) = (tok, None)" and "\<not> Valid tok (clock w)"
  shows "case upstream_reply on_lock w c key scopes of
           RetrieveError status body \<Rightarrow>
             fst (getToken on_lock w c key scopes) = Inl errInvalidCredentials \<and>
             entries (snd (getToken on_lock w c key scopes)) = entries (exchange_world on_lock w key) \<and>
             trace (snd (getToken on_lock w c key scopes)) =
               trace (exchange_world on_lock w key) @
                 [Exchange (exchange_config c scopes), LogError ''Invalid client credentials'', Unlock]
         | OtherError e \<Rightarrow>
             fst (getToken on_lock w c key scopes) = Inl (UpstreamError e) \<and>
             entries (snd (getToken on_lock w c key scopes)) = entries (exchange_world on_lock w key) \<and>
             trace (snd (getToken on_lock w c key scopes)) =
               trace (exchange_world on_lock w key) @ [Exchange (exchange_config c scopes), Unlock]
         | Issued t \<Rightarrow> fst (getToken on_lock w c key scopes) \<noteq> Inl errInvalidCredentials"
  unfolding getToken_slow_path [OF assms] refresh_locked_exchanges upstream_reply_def exchange_world_def
  by (auto simp: Token_def StorageEntryJSON_token_def storage_Put_def
           split: reply.splits sum.splits option.splits prod.splits if_splits)

text \<open>The witness of C6: the endpoint answers 401.\<close>

theorem getToken_upstream_failure_witness:
  "fst (getTokenFromStorage (failing_world (RetrieveError 401 ''denied'')) ''k'') = (None, None) \<and>
   \<not> Valid None (clock (failing_world (RetrieveError 401 ''denied''))) \<and>
   fst (getToken id (failing_world (RetrieveError 401 ''denied'')) client ''k'' None)
     = Inl errInvalidCredentials \<and>
   entries (snd (getToken id (failing_world (RetrieveError 401 ''denied'')) client ''k'' None))
     = entries (exchange_world id (failing_world (RetrieveError 401 ''denied'')) ''k'')"
proof -
  let ?w = "failing_world (RetrieveError 401 ''denied'')"
  have a: "fst (getTokenFromStorage ?w ''k'') = (None, None)" by code_simp
  have b: "\<not> Valid None (clock ?w)" by (simp add: Valid_def)
  have r: "upstream_reply id ?w client ''k'' None = RetrieveError 401 ''denied''" by code_simp
  from getToken_upstream_failure [OF a b, of id client None] r a b show ?thesis by simp
qed




section \<open>The request handlers: C4, C8, C10\<close>

text \<open>
  C4: \<^verbatim>\<open>credsDeleteOperation\<close> takes the mutex of the backend, the one \<^verbatim>\<open>getToken\<close>
  takes, lists the bucket of the name, deletes every child the list reports and releases
  the mutex. After a delete that returns without error the storage holds no token under
  the key of any scope slice of that name. When the storage holds nothing under the
  bucket and the list does not fail, the delete returns without error and leaves the
  entries as they were, with no \<^verbatim>\<open>Delete\<close> at all.
\<close>

theorem credsDeleteOperation_cascade:
  "(fst (credsDeleteOperation on_lock w req) = Inr None \<longrightarrow>
      (\<forall>scopes. map_of (entries (snd (credsDeleteOperation on_lock w req)))
                  (fst (credKeyWithScopes (credKey (req_name req)) scopes)) = None) \<and>
      trace (snd (credsDeleteOperation on_lock w req)) =
        trace (on_lock w) @ [Lock, StorageList (credKey (req_name req) @ ''/'')]
          @ map (\<lambda>s. StorageDelete (credKey (req_name req) @ ''/'' @ s))
              (stored_suffixes (on_lock w) (credKey (req_name req)))
          @ [Unlock])
   \<and>
   (faults (on_lock w) (OpList (credKey (req_name req) @ ''/'')) = None \<and>
    (\<forall>k \<in> fst ` set (entries (on_lock w)). \<not> has_prefix k (credKey (req_name req) @ ''/''))
      \<longrightarrow> fst (credsDeleteOperation on_lock w req) = Inr None \<and>
          entries (snd (credsDeleteOperation on_lock w req)) = entries (on_lock w) \<and>
          trace (snd (credsDeleteOperation on_lock w req)) =
            trace (on_lock w) @ [Lock, StorageList (credKey (req_name req) @ ''/''), Unlock])"
proof (intro conjI impI allI)
  let ?key = "credKey (req_name req)"
  let ?p = "?key @ ''/''"
  let ?w1 = "credMut_Lock on_lock w"
  let ?cs = "stored_suffixes (on_lock w) ?key"
  let ?w2 = "log ?w1 (StorageList ?p)"
  assume ok: "fst (credsDeleteOperation on_lock w req) = Inr None"
  have nofault: "faults (on_lock w) (OpList ?p) = None"
    using ok by (auto simp: credsDeleteOperation_def Let_def storage_List_def credMut_Lock_def
                      split: option.splits prod.splits sum.splits)
  then have list: "storage_List ?w1 ?p = (Inr ?cs, ?w2)"
    by (simp add: storage_List_def credMut_Lock_def stored_suffixes_def)
  have run: "credsDeleteOperation on_lock w req =
       (case delete_each ?w2 ?key ?cs of
          (Some e, w3) \<Rightarrow> (Inl e, credMut_Unlock w3)
        | (None, w3) \<Rightarrow> (Inr None, credMut_Unlock w3))"
    unfolding credsDeleteOperation_def Let_def list by simp
  with ok have del: "fst (delete_each ?w2 ?key ?cs) = None"
    by (auto split: prod.splits option.splits)
  then have res: "snd (credsDeleteOperation on_lock w req) = credMut_Unlock (snd (delete_each ?w2 ?key ?cs))"
    unfolding run by (auto split: prod.splits option.splits)
  {
    fix scopes
    obtain d where vk: "fst (credKeyWithScopes ?key scopes) = ?p @ hex d"
      using credKeyWithScopes_fst [of ?key scopes] by auto
    have "map_of (entries (snd (delete_each ?w2 ?key ?cs))) (?p @ hex d) = None"
    proof (cases "?p @ hex d \<in> fst ` set (entries (on_lock w))")
      case True
      then have "hex d \<in> set ?cs"
        using child_of_leaf [OF hex_no_slash, of ?p d]
        by (force simp: has_prefix_def stored_suffixes_def)
      then have "?p @ hex d \<in> (\<lambda>s. ?key @ ''/'' @ s) ` set ?cs" by force
      then show ?thesis using delete_each_ok [OF del, of "?p @ hex d"] by simp
    next
      case False
      then have "map_of (entries ?w2) (?p @ hex d) = None"
        by (simp add: map_of_eq_None_iff credMut_Lock_def)
      then show ?thesis using delete_each_ok [OF del, of "?p @ hex d"] by simp
    qed
    then show "map_of (entries (snd (credsDeleteOperation on_lock w req)))
                 (fst (credKeyWithScopes ?key scopes)) = None"
      unfolding res vk by simp
  }
  show "trace (snd (credsDeleteOperation on_lock w req)) =
          trace (on_lock w) @ [Lock, StorageList ?p]
            @ map (\<lambda>s. StorageDelete (?key @ ''/'' @ s)) ?cs @ [Unlock]"
    unfolding res using delete_each_ok [OF del, of "[]"]
    by (simp add: credMut_Lock_def)
next
  let ?key = "credKey (req_name req)"
  let ?p = "?key @ ''/''"
  assume h: "faults (on_lock w) (OpList ?p) = None \<and>
    (\<forall>k \<in> fst ` set (entries (on_lock w)). \<not> has_prefix k ?p)"
  then have "filter (\<lambda>k. has_prefix k ?p) (map fst (entries (on_lock w))) = []"
    by (auto simp: filter_empty_conv)
  with h have list: "storage_List (credMut_Lock on_lock w) ?p =
      (Inr [], log (credMut_Lock on_lock w) (StorageList ?p))"
    by (simp add: storage_List_def credMut_Lock_def)
  show "fst (credsDeleteOperation on_lock w req) = Inr None"
    unfolding credsDeleteOperation_def Let_def list by simp
  show "entries (snd (credsDeleteOperation on_lock w req)) = entries (on_lock w)"
    unfolding credsDeleteOperation_def Let_def list by (simp add: credMut_Lock_def)
  show "trace (snd (credsDeleteOperation on_lock w req)) =
          trace (on_lock w) @ [Lock, StorageList ?p, Unlock]"
    unfolding credsDeleteOperation_def Let_def list by (simp add: credMut_Lock_def)
qed

text \<open>
  The witness of C4: the tokens of \<open>user\<close> under two scope slices are deleted, whatever
  the order of the scopes in the later read, and the token of another name stays; on an
  empty storage the delete succeeds.
\<close>

theorem credsDeleteOperation_cascade_witness:
  "fst (credsDeleteOperation id stocked_world read_user) = Inr None \<and>
   map_of (entries stocked_world)
     (fst (credKeyWithScopes (credKey (req_name read_user)) (Some [''a'', ''b'', ''c''])))
     = Some (TokenJSON (bearer ''abcd3'' None)) \<and>
   map_of (entries (snd (credsDeleteOperation id stocked_world read_user)))
     (fst (credKeyWithScopes (credKey (req_name read_user)) (Some [''a'', ''b'', ''c'']))) = None \<and>
   map_of (entries (snd (credsDeleteOperation id stocked_world read_user)))
     (fst (credKeyWithScopes (credKey (req_name read_user)) (Some [''e'', ''d'', ''c'', ''b'', ''a''])))
     = None \<and>
   map_of (entries (snd (credsDeleteOperation id stocked_world read_user)))
     (fst (credKeyWithScopes (credKey ''other'') (Some [''a'', ''b'', ''c''])))
     = Some (TokenJSON (bearer ''abcd5'' None)) \<and>
   fst (credsDeleteOperation id fresh_world read_user) = Inr None \<and>
   entries (snd (credsDeleteOperation id fresh_world read_user)) = entries fresh_world"
proof -
  have ok: "fst (credsDeleteOperation id stocked_world read_user) = Inr None" by code_simp
  have before: "map_of (entries stocked_world)
     (fst (credKeyWithScopes (credKey (req_name read_user)) (Some [''a'', ''b'', ''c''])))
     = Some (TokenJSON (bearer ''abcd3'' None))" by code_simp
  have other: "map_of (entries (snd (credsDeleteOperation id stocked_world read_user)))
     (fst (credKeyWithScopes (credKey ''other'') (Some [''a'', ''b'', ''c''])))
     = Some (TokenJSON (bearer ''abcd5'' None))" by code_simp
  note gone = credsDeleteOperation_cascade [of id stocked_world read_user, THEN conjunct1, THEN mp, OF ok,
      THEN conjunct1]
  have empty: "faults (id fresh_world) (OpList (credKey (req_name read_user) @ ''/'')) = None \<and>
      (\<forall>k \<in> fst ` set (entries (id fresh_world)).
          \<not> has_prefix k (credKey (req_name read_user) @ ''/''))"
    by (simp add: fresh_world_def world0_def)
  note noop = credsDeleteOperation_cascade [of id fresh_world read_user, THEN conjunct2, THEN mp, OF empty]
  from ok before gone [THEN spec [of _ "Some [''a'', ''b'', ''c'']"]]
    gone [THEN spec [of _ "Some [''e'', ''d'', ''c'', ''b'', ''a'']"]] other noop
  show ?thesis by simp
qed

text \<open>
  C8: when the storage holds no configuration, \<^verbatim>\<open>credsReadOperation\<close> answers
  "Not configured" for every request, and all it does is the one read of the
  configuration: the name and the scopes of the request play no part, no token record is
  read and no exchange takes place.
\<close>

theorem credsReadOperation_not_configured:
  assumes "faults w (OpGet configPath) = None" and "map_of (entries w) configPath = None"
  shows "credsReadOperation on_lock w req =
           (Inr (Some (ErrorResponse ''Not configured'')), log w (StorageGet configPath))"
  using assms by (simp add: credsReadOperation_def getConfig_def storage_Get_def)

text \<open>The witness of C8: a read on an empty storage.\<close>

theorem credsReadOperation_not_configured_witness:
  "faults fresh_world (OpGet configPath) = None \<and>
   map_of (entries fresh_world) configPath = None \<and>
   credsReadOperation id fresh_world read_user =
     (Inr (Some (ErrorResponse ''Not configured'')), log fresh_world (StorageGet configPath))"
proof -
  have a: "faults fresh_world (OpGet configPath) = None"
    by (simp add: fresh_world_def world0_def)
  have b: "map_of (entries fresh_world) configPath = None"
    by (simp add: fresh_world_def world0_def)
  from a b credsReadOperation_not_configured [OF a b, of id read_user] show ?thesis by (intro conjI)
qed

text \<open>
  C10: for two stored configurations that differ at most in the client secret,
  \<^verbatim>\<open>configReadOperation\<close> gives the same response: exactly the fields
  \<^verbatim>\<open>client_id\<close>, \<^verbatim>\<open>token_url\<close> and \<^verbatim>\<open>scopes\<close>, and no client secret.
\<close>

theorem configReadOperation_hides_secret:
  assumes "ClientID c1 = ClientID credKeyWithScopes_permutation" and "TokenURL c1 = TokenURL credKeyWithScopes_permutation" and "Scopes c1 = Scopes credKeyWithScopes_permutation"
    and "map_of (entries w1) configPath = Some (ConfigJSON c1)"
    and "map_of (entries w2) configPath = Some (ConfigJSON credKeyWithScopes_permutation)"
    and "faults w1 (OpGet configPath) = None" and "faults w2 (OpGet configPath) = None"
  shows "fst (configReadOperation w1) = fst (configReadOperation w2) \<and>
         fst (configReadOperation w1) =
           Inr (Some (Response
             [(''client_id'', VString (ClientID c1)),
              (''token_url'', VString (TokenURL c1)),
              (''scopes'', VStrings (Scopes c1))]))"
  using assms by (simp add: configReadOperation_def getConfig_def storage_Get_def)

text \<open>The witness of C10: the configuration of the tests with two secrets.\<close>

theorem configReadOperation_hides_secret_witness:
  "ClientSecret client \<noteq> ClientSecret (client\<lparr>ClientSecret := ''baz''\<rparr>) \<and>
   (fst (configReadOperation (world0 [(configPath, ConfigJSON client)] (\<lambda>n cfg. OtherError [])))
     = fst (configReadOperation
             (world0 [(configPath, ConfigJSON (client\<lparr>ClientSecret := ''baz''\<rparr>))]
                (\<lambda>n cfg. OtherError []))) \<and>
    fst (configReadOperation (world0 [(configPath, ConfigJSON client)] (\<lambda>n cfg. OtherError [])))
     = Inr (Some (Response
         [(''client_id'', VString (ClientID client)),
          (''token_url'', VString (TokenURL client)),
          (''scopes'', VStrings (Scopes client))])))"
proof -
  let ?c2 = "client\<lparr>ClientSecret := ''baz''\<rparr>"
  let ?w1 = "world0 [(configPath, ConfigJSON client)] (\<lambda>n cfg. OtherError [])"
  let ?w2 = "world0 [(configPath, ConfigJSON ?c2)] (\<lambda>n cfg. OtherError [])"
  have d: "ClientSecret client \<noteq> ClientSecret ?c2" by (simp add: client_def)
  have "fst (configReadOperation ?w1) = fst (configReadOperation ?w2) \<and>
        fst (configReadOperation ?w1) =
          Inr (Some (Response
             [(''client_id'', VString (ClientID client)),
              (''token_url'', VString (TokenURL client)),
              (''scopes'', VStrings (Scopes client))]))"
    by (rule configReadOperation_hides_secret [of client ?c2 ?w1 ?w2]) (simp_all add: world0_def)
  with d show ?thesis by (rule conjI)
qed

end
